theory Spec2Isabelle
  imports Complex_Main "HOL-Library.Multiset"
begin

section \<open>Exceptions and Python values\<close>

text \<open>
  The exceptions the two modules raise, as values. \<open>KeyDecodeError\<close> and
  \<open>ValueDecodeError\<close> wrap the exception of the codec (kept as its message);
  \<open>UnboundLocalError\<close> is what Python raises when a local variable is read before it
  was assigned; \<open>Other\<close> stands for an exception of a collaborator (codec, handler,
  callback, backend).
\<close>

datatype error =
    AssertionError
  | TypeError
  | AttributeError
  | IndexError
  | KeyError
  | UnboundLocalError
  | KeyDecodeError string
  | ValueDecodeError string
  | Other string

text \<open>
  Python's \<open>xs[i]\<close> on a list: a negative index counts from the end, and an index outside
  the list raises \<open>IndexError\<close>.
\<close>

definition py_getitem :: "'a list \<Rightarrow> int \<Rightarrow> error + 'a" where
  "py_getitem xs i =
     (let n = int (length xs);
          j = (if i < 0 then i + n else i)
      in if 0 \<le> j \<and> j < n then Inr (xs ! nat j) else Inl IndexError)"

text \<open>Truth value of an optional string (\<open>None\<close> and \<open>''\<close> are false) and \<open>a or b\<close>.\<close>

definition truthy_str :: "string option \<Rightarrow> bool" where
  "truthy_str s = (case s of None \<Rightarrow> False | Some t \<Rightarrow> t \<noteq> [])"

definition or_str :: "string option \<Rightarrow> string option \<Rightarrow> string option" where
  "or_str a b = (if truthy_str a then a else b)"

text \<open>The same for an optional float, tested against zero only.\<close>

definition truthy_num :: "real option \<Rightarrow> bool" where
  "truthy_num x = (case x of None \<Rightarrow> False | Some t \<Rightarrow> t \<noteq> 0)"

definition or_num :: "real option \<Rightarrow> real option \<Rightarrow> real option" where
  "or_num a b = (if truthy_num a then a else b)"

section \<open>Acknowledged offsets (\<open>faust/transport/base.py\<close>)\<close>

text \<open>
  \<open>Consumer.on_event_ready\<close> on the list \<open>_acked\<close>: append the offset of the released
  event, then sort the list in place.
\<close>

definition on_event_ready :: "int \<Rightarrow> int list \<Rightarrow> int list" where
  "on_event_ready offset acked = sort (acked @ [offset])"

text \<open>
  \<open>Consumer._new_offset\<close>: the \<open>for\<close> loop over \<open>enumerate(acked)\<close>, with its \<open>else\<close>
  branch (taken when the loop ends without \<open>break\<close>) raising \<open>IndexError\<close>. The loop
  compares each entry with \<open>acked[i - 1]\<close>, which at \<open>i = 0\<close> is \<open>acked[-1]\<close>.
\<close>

fun new_offset_loop :: "int list \<Rightarrow> (nat \<times> int) list \<Rightarrow> error + int" where
  "new_offset_loop acked [] = Inl IndexError"
| "new_offset_loop acked ((i, offset) # rest) =
     (case py_getitem acked (int i - 1) of
        Inl e \<Rightarrow> Inl e
      | Inr prev \<Rightarrow> if offset \<noteq> prev then Inr offset else new_offset_loop acked rest)"

definition new_offset :: "int list \<Rightarrow> error + int" where
  "new_offset acked = new_offset_loop acked (enumerate 0 acked)"

text \<open>\<open>Consumer._should_commit\<close>; \<open>offset and \<dots>\<close> is false for the offset 0.\<close>

definition should_commit :: "int option \<Rightarrow> int \<Rightarrow> bool" where
  "should_commit current offset =
     (case current of None \<Rightarrow> True | Some c \<Rightarrow> offset \<noteq> 0 \<and> offset > c)"

section \<open>The Consumer object\<close>

text \<open>
  Modelled from the spec: \<open>Message\<close>, \<open>Topic\<close> and the application object are declared
  in \<open>faust/types\<close>, which is not part of the sources; the records below carry the
  attributes that \<open>Consumer\<close> reads. The value type of a topic is represented by its
  \<open>from_message\<close> class method, which gets the decoded key, the message and the default
  serializer and either raises or returns the event. A pattern, when present, is a
  compiled matcher, which counts as true in a condition; a list of topic names counts as
  true when it is not empty.
\<close>

record 'k message =
  msg_key :: 'k
  msg_value :: string
  msg_offset :: int

record ('k, 'v) topic =
  topics :: "string list"
  pattern :: "string option"
  type_from_message :: "'k \<Rightarrow> 'k message \<Rightarrow> string option \<Rightarrow> string + 'v"
  topic_key_serializer :: "string option"

record app =
  app_key_serializer :: "string option"
  app_value_serializer :: "string option"
  app_commit_interval :: "real option"

text \<open>\<open>Transport\<close>: the attributes set by \<open>Transport.__init__\<close>.\<close>

record transport =
  url :: string
  transport_app :: app
  loop :: "nat option"

text \<open>
  The attributes of a \<open>Consumer\<close>. A handler or callback is a function to \<open>None\<close> (it
  returned) or to the exception it raised.
\<close>

record ('k, 'v) consumer =
  consumer_id :: nat
  consumer_transport :: transport
  callback :: "'k \<Rightarrow> 'v \<Rightarrow> error option"
  consumer_topic :: "('k, 'v) topic"
  on_key_decode_error :: "(string \<Rightarrow> 'k message \<Rightarrow> error option) option"
  on_value_decode_error :: "(string \<Rightarrow> 'k message \<Rightarrow> error option) option"
  key_serializer :: "string option"
  value_serializer :: "string option"
  commit_interval :: "real option"
  dirty_events :: "('v \<times> int) list"
  acked :: "int list"
  current_offset :: "int option"

text \<open>
  \<open>Consumer.__init__\<close>. The first component of the result is the class-wide counter
  \<open>_consumer_ids\<close> after the call, the second says whether \<open>super().__init__\<close> (the only
  call the constructor makes on a collaborator) was reached, the third is the exception
  raised or the object. \<open>_current_offset\<close> keeps its class default \<open>None\<close>.
\<close>

definition consumer_init ::
  "nat \<Rightarrow> transport \<Rightarrow> ('k, 'v) topic option \<Rightarrow> ('k \<Rightarrow> 'v \<Rightarrow> error option) option \<Rightarrow>
   (string \<Rightarrow> 'k message \<Rightarrow> error option) option \<Rightarrow>
   (string \<Rightarrow> 'k message \<Rightarrow> error option) option \<Rightarrow> real option \<Rightarrow>
   nat \<times> bool \<times> (error + ('k, 'v) consumer)" where
  "consumer_init consumer_ids tr tp cb on_key on_value interval =
     (case cb of
        None \<Rightarrow> (consumer_ids, False, Inl AssertionError)
      | Some f \<Rightarrow>
          (case tp of
             None \<Rightarrow> (Suc consumer_ids, False, Inl AttributeError)
           | Some t \<Rightarrow>
               if topics t \<noteq> [] \<and> pattern t \<noteq> None
               then (Suc consumer_ids, False, Inl TypeError)
               else (Suc consumer_ids, True, Inr
                 \<lparr> consumer_id = consumer_ids,
                   consumer_transport = tr,
                   callback = f,
                   consumer_topic = t,
                   on_key_decode_error = on_key,
                   on_value_decode_error = on_value,
                   key_serializer =
                     or_str (topic_key_serializer t) (app_key_serializer (transport_app tr)),
                   value_serializer = app_value_serializer (transport_app tr),
                   commit_interval =
                     or_num interval (app_commit_interval (transport_app tr)),
                   dirty_events = [],
                   acked = [],
                   current_offset = None \<rparr>)))"

section \<open>The receive path\<close>

text \<open>
  \<open>Consumer.to_KV\<close>. \<open>loads\<close> is the codec function of \<open>faust/codecs\<close> (not part of the
  sources), taken as a parameter: it raises (\<open>Inl\<close>, the message of the exception) or
  returns the decoded key.
\<close>

definition to_KV ::
  "(string \<Rightarrow> 'k \<Rightarrow> string + 'k) \<Rightarrow> ('k, 'v) consumer \<Rightarrow> 'k message \<Rightarrow> error + ('k \<times> 'v)" where
  "to_KV loads c m =
     (case (if truthy_str (key_serializer c)
            then (case loads (the (key_serializer c)) (msg_key m) of
                    Inl exc \<Rightarrow> Inl (KeyDecodeError exc)
                  | Inr key \<Rightarrow> Inr key)
            else Inr (msg_key m)) of
        Inl e \<Rightarrow> Inl e
      | Inr k \<Rightarrow>
          (case type_from_message (consumer_topic c) k m (value_serializer c) of
             Inl exc \<Rightarrow> Inl (ValueDecodeError exc)
           | Inr v \<Rightarrow> Inr (k, v)))"

text \<open>The calls \<open>on_message\<close> makes on the handlers and on the application callback.\<close>

datatype ('k, 'v) call =
    KeyHandlerCall string "'k message"
  | ValueHandlerCall string "'k message"
  | CallbackCall 'k 'v

text \<open>
  \<open>Consumer.track_event\<close>: one more entry in \<open>_dirty_events\<close>. The entry is an
  \<open>EventRef\<close>, a weak reference, and \<open>weakref.ref\<close> raises \<open>TypeError\<close> for an object
  whose class does not support weak references (a \<open>str\<close> or an \<open>int\<close>, for example);
  which events do is the parameter \<open>weakrefable\<close>.
\<close>

definition track_event ::
  "('v \<Rightarrow> bool) \<Rightarrow> 'v \<Rightarrow> int \<Rightarrow> ('k, 'v) consumer \<Rightarrow> error + ('k, 'v) consumer" where
  "track_event weakrefable event offset c =
     (if weakrefable event
      then Inr (c\<lparr>dirty_events := dirty_events c @ [(event, offset)]\<rparr>)
      else Inl TypeError)"

text \<open>
  The two statements of \<open>on_message\<close> after the \<open>try\<close> statement. The locals \<open>k\<close> and \<open>v\<close>
  are \<open>None\<close> while unassigned; reading an unassigned local raises. The arguments of
  \<open>track_event\<close> are evaluated before the call.
\<close>

definition after_try ::
  "('v \<Rightarrow> bool) \<Rightarrow> ('k, 'v) consumer \<Rightarrow> 'k message \<Rightarrow> 'k option \<Rightarrow> 'v option \<Rightarrow>
   ('k, 'v) call list \<Rightarrow> ('k, 'v) consumer \<times> ('k, 'v) call list \<times> (error + unit)" where
  "after_try weakrefable c m k v calls =
     (case v of
        None \<Rightarrow> (c, calls, Inl UnboundLocalError)
      | Some ev \<Rightarrow>
          (case track_event weakrefable ev (msg_offset m) c of
             Inl e \<Rightarrow> (c, calls, Inl e)
           | Inr c1 \<Rightarrow>
               (case k of
                  None \<Rightarrow> (c1, calls, Inl UnboundLocalError)
                | Some key \<Rightarrow>
                    (c1, calls @ [CallbackCall key ev],
                     case callback c key ev of None \<Rightarrow> Inr () | Some e \<Rightarrow> Inl e))))"

text \<open>
  \<open>Consumer.on_message\<close>: the consumer after the call, the calls made, in order, and the
  exception raised, if any.
\<close>

definition on_message ::
  "(string \<Rightarrow> 'k \<Rightarrow> string + 'k) \<Rightarrow> ('v \<Rightarrow> bool) \<Rightarrow> ('k, 'v) consumer \<Rightarrow> 'k message \<Rightarrow>
   ('k, 'v) consumer \<times> ('k, 'v) call list \<times> (error + unit)" where
  "on_message loads weakrefable c m =
     (case to_KV loads c m of
        Inr (k, v) \<Rightarrow> after_try weakrefable c m (Some k) (Some v) []
      | Inl (KeyDecodeError exc) \<Rightarrow>
          (case on_key_decode_error c of
             None \<Rightarrow> (c, [], Inl (KeyDecodeError exc))
           | Some h \<Rightarrow>
               (case h exc m of
                  Some e \<Rightarrow> (c, [KeyHandlerCall exc m], Inl e)
                | None \<Rightarrow> after_try weakrefable c m None None [KeyHandlerCall exc m]))
      | Inl (ValueDecodeError exc) \<Rightarrow>
          (case on_value_decode_error c of
             None \<Rightarrow> (c, [], Inl (ValueDecodeError exc))
           | Some h \<Rightarrow>
               (case h exc m of
                  Some e \<Rightarrow> (c, [ValueHandlerCall exc m], Inl e)
                | None \<Rightarrow> after_try weakrefable c m None None [ValueHandlerCall exc m]))
      | Inl e \<Rightarrow> (c, [], Inl e))"

section \<open>The commit loop\<close>

text \<open>
  The state of a running consumer as the commit loop sees it: the object, the offsets the
  backend commit was called with, in order, and the exception that ended
  \<open>_commit_handler\<close>, if one did.
\<close>

record ('k, 'v) running =
  consumer :: "('k, 'v) consumer"
  commits :: "int list"
  handler_exc :: "error option"

text \<open>
  One iteration of the \<open>while 1\<close> loop of \<open>Consumer._commit_handler\<close>. \<open>_commit\<close> is
  supplied by the backend: \<open>backend\<close> is what that call does on this iteration, \<open>None\<close>
  when it returns and the exception when it raises. Only \<open>IndexError\<close> is caught.
\<close>

definition commit_tick :: "error option \<Rightarrow> ('k, 'v) running \<Rightarrow> ('k, 'v) running" where
  "commit_tick backend s =
     (case new_offset (acked (consumer s)) of
        Inl e \<Rightarrow> if e = IndexError then s else s\<lparr>handler_exc := Some e\<rparr>
      | Inr offset \<Rightarrow>
          if should_commit (current_offset (consumer s)) offset
          then s\<lparr>consumer := (consumer s)\<lparr>current_offset := Some offset\<rparr>,
                 commits := commits s @ [offset],
                 handler_exc := backend\<rparr>
          else s)"

text \<open>
  What happens to a running consumer: an event is released (\<open>on_event_ready\<close> runs with its
  offset), or the commit loop wakes up. A loop that was ended by an exception does not run
  again.
\<close>

datatype event = Ack int | Tick "error option"

fun step :: "('k, 'v) running \<Rightarrow> event \<Rightarrow> ('k, 'v) running" where
  "step s (Ack offset) =
     s\<lparr>consumer := (consumer s)\<lparr>acked := on_event_ready offset (acked (consumer s))\<rparr>\<rparr>"
| "step s (Tick backend) = (if handler_exc s = None then commit_tick backend s else s)"

definition start :: "('k, 'v) consumer \<Rightarrow> ('k, 'v) running" where
  "start c = \<lparr>consumer = c, commits = [], handler_exc = None\<rparr>"

definition run :: "('k, 'v) consumer \<Rightarrow> event list \<Rightarrow> ('k, 'v) running" where
  "run c evs = foldl step (start c) evs"

text \<open>The offsets of the events released in a run, in the order of release.\<close>

fun acks_of :: "event list \<Rightarrow> int list" where
  "acks_of [] = []"
| "acks_of (Ack offset # evs) = offset # acks_of evs"
| "acks_of (Tick backend # evs) = acks_of evs"

text \<open>
  The invariant of the commit loop: the offsets passed to the backend are strictly
  increasing, and \<open>_current_offset\<close> is the last of them (\<open>None\<close> before the first call).
\<close>

definition commit_inv :: "('k, 'v) running \<Rightarrow> bool" where
  "commit_inv s =
     (sorted_wrt (<) (commits s) \<and>
      (case current_offset (consumer s) of
         None \<Rightarrow> commits s = []
       | Some prev \<Rightarrow> commits s \<noteq> [] \<and> last (commits s) = prev))"

section \<open>Table (\<open>faust/tables.py\<close>)\<close>

text \<open>
  \<open>Table.on_init\<close>. \<open>_coroutines\<close> is an attribute of \<open>Stream\<close> (not part of the sources):
  the generator callbacks registered on the stream, taken as a parameter. The result is
  the exception of the failed assertion or the new \<open>_state\<close>.
\<close>

definition table_on_init :: "'c list \<Rightarrow> error + ('k \<rightharpoonup> 'v)" where
  "table_on_init coroutines = (if coroutines \<noteq> [] then Inl AssertionError else Inr Map.empty)"

text \<open>
  \<open>Table.on_message\<close>. \<open>process\<close> is a method of \<open>Stream\<close>, taken as a parameter; an
  exception it raises leaves \<open>_state\<close> as it was.
\<close>

definition table_on_message ::
  "('k \<Rightarrow> 'v \<Rightarrow> error + 'v) \<Rightarrow> ('k \<rightharpoonup> 'v) \<Rightarrow> 'k \<Rightarrow> 'v \<Rightarrow> error + ('k \<rightharpoonup> 'v)" where
  "table_on_message process state key val =
     (case process key val of Inl e \<Rightarrow> Inl e | Inr processed \<Rightarrow> Inr (state(key \<mapsto> processed)))"

text \<open>\<open>Table.__getitem__\<close>, \<open>Table.__setitem__\<close> and \<open>Table.__delitem__\<close> on a dict.\<close>

definition table_getitem :: "('k \<rightharpoonup> 'v) \<Rightarrow> 'k \<Rightarrow> error + 'v" where
  "table_getitem state key = (case state key of None \<Rightarrow> Inl KeyError | Some v \<Rightarrow> Inr v)"

definition table_setitem :: "('k \<rightharpoonup> 'v) \<Rightarrow> 'k \<Rightarrow> 'v \<Rightarrow> ('k \<rightharpoonup> 'v)" where
  "table_setitem state key val = state(key \<mapsto> val)"

definition table_delitem :: "('k \<rightharpoonup> 'v) \<Rightarrow> 'k \<Rightarrow> error + ('k \<rightharpoonup> 'v)" where
  "table_delitem state key =
     (case state key of None \<Rightarrow> Inl KeyError | Some v \<Rightarrow> Inr (state(key := None)))"

section \<open>Example objects\<close>

text \<open>
  A small configuration used to run the definitions: a topic with one name, a key codec
  that rejects the key \<open>''bad''\<close>, and a value type that rejects the empty value.
\<close>

definition example_loads :: "string \<Rightarrow> string \<Rightarrow> string + string" where
  "example_loads serializer raw = (if raw = ''bad'' then Inl ''cannot decode'' else Inr raw)"

definition example_topic :: "(string, string) topic" where
  "example_topic =
     \<lparr> topics = [''orders''],
       pattern = None,
       type_from_message =
         (\<lambda>k m serializer. if msg_value m = [] then Inl ''empty value'' else Inr (msg_value m)),
       topic_key_serializer = Some ''json'' \<rparr>"

definition example_transport :: transport where
  "example_transport =
     \<lparr> url = ''kafka://localhost'',
       transport_app =
         \<lparr> app_key_serializer = None,
           app_value_serializer = Some ''json'',
           app_commit_interval = Some 1 \<rparr>,
       loop = None \<rparr>"

definition example_consumer ::
  "(string \<Rightarrow> string message \<Rightarrow> error option) option \<Rightarrow> (string, string) consumer" where
  "example_consumer on_key =
     \<lparr> consumer_id = 0,
       consumer_transport = example_transport,
       callback = (\<lambda>k v. None),
       consumer_topic = example_topic,
       on_key_decode_error = on_key,
       on_value_decode_error = None,
       key_serializer = Some ''json'',
       value_serializer = Some ''json'',
       commit_interval = Some 1,
       dirty_events = [],
       acked = [],
       current_offset = None \<rparr>"

definition bad_key_message :: "string message" where
  "bad_key_message = \<lparr>msg_key = ''bad'', msg_value = ''v'', msg_offset = 7\<rparr>"

section \<open>Facts about the offset scan\<close>

lemma py_getitem_last: "xs \<noteq> [] \<Longrightarrow> py_getitem xs (- 1) = Inr (last xs)"
  by (cases xs rule: rev_cases) (simp_all add: py_getitem_def Let_def nat_add_distrib)

lemma py_getitem_nat: "i < length xs \<Longrightarrow> py_getitem xs (int i) = Inr (xs ! i)"
  by (simp add: py_getitem_def Let_def)

text \<open>The loop runs to its end when every entry equals the entry before it.\<close>

lemma new_offset_loop_all_same:
  "(\<And>i off. (i, off) \<in> set ps \<Longrightarrow> py_getitem a (int i - 1) = Inr off) \<Longrightarrow>
   new_offset_loop a ps = Inl IndexError"
proof (induction ps)
  case Nil
  show ?case by simp
next
  case (Cons p ps)
  obtain i off where p: "p = (i, off)" by (cases p)
  have "py_getitem a (int i - 1) = Inr off" using Cons.prems [of i off] p by simp
  moreover have "new_offset_loop a ps = Inl IndexError"
    using Cons.IH Cons.prems by simp
  ultimately show ?case using p by simp
qed

lemma py_getitem_prev_const:
  assumes c: "\<And>x. x \<in> set a \<Longrightarrow> x = c" and i: "i < length a"
  shows "py_getitem a (int i - 1) = Inr c"
proof (cases i)
  case 0
  have ne: "a \<noteq> []" using i by auto
  have "last a = c" using c ne by simp
  then show ?thesis using 0 py_getitem_last [OF ne] by simp
next
  case (Suc j)
  have "j < length a" using i Suc by simp
  moreover have "a ! j = c" using c calculation by simp
  ultimately show ?thesis using Suc py_getitem_nat [of j a] by simp
qed

lemma new_offset_const:
  assumes c: "\<And>x. x \<in> set a \<Longrightarrow> x = c"
  shows "new_offset a = Inl IndexError"
  unfolding new_offset_def
proof (rule new_offset_loop_all_same)
  fix i off assume "(i, off) \<in> set (enumerate 0 a)"
  then have i: "i < length a" and off: "off = a ! i"
    by (auto simp: in_set_enumerate_eq)
  have "off = c" using c i off by simp
  then show "py_getitem a (int i - 1) = Inr off"
    using py_getitem_prev_const [of a c i] c i by simp
qed

lemma new_offset_hd:
  assumes "a \<noteq> []" "hd a \<noteq> last a"
  shows "new_offset a = Inr (hd a)"
proof -
  obtain x xs where a: "a = x # xs" using assms(1) by (cases a) auto
  have "py_getitem a (- 1) = Inr (last a)" using py_getitem_last assms(1) by blast
  then show ?thesis using assms(2) a by (simp add: new_offset_def)
qed

lemma sorted_hd_last_const:
  assumes "sorted (a :: int list)" "a \<noteq> []" "hd a = last a" "x \<in> set a"
  shows "x = hd a"
proof -
  obtain y ys where a: "a = y # ys" using assms(2) by (cases a) auto
  obtain z zs where b: "a = zs @ [z]" using assms(2) by (cases a rule: rev_cases) auto
  have "y \<le> x" using assms(1,4) a by auto
  moreover have "x \<le> z" using assms(1,4) b by (auto simp: sorted_append)
  moreover have "hd a = y" using a by simp
  moreover have "last a = z" using b by simp
  ultimately show ?thesis using assms(3) by simp
qed

text \<open>
  On a sorted list the scan has two outcomes: \<open>IndexError\<close> when the list is empty or all
  its entries are equal, and otherwise the first entry.
\<close>

lemma new_offset_sorted:
  assumes "sorted a"
  shows "new_offset a = (if a = [] \<or> hd a = last a then Inl IndexError else Inr (hd a))"
proof (cases "a = [] \<or> hd a = last a")
  case True
  have "\<And>x. x \<in> set a \<Longrightarrow> x = hd a"
    using True assms sorted_hd_last_const by (cases "a = []") auto
  then show ?thesis using True new_offset_const [of a "hd a"] by simp
next
  case False
  then show ?thesis using new_offset_hd by simp
qed

lemma sorted_hd_Min_set:
  assumes "sorted (a :: int list)" "a \<noteq> []"
  shows "hd a = Min (set a)"
proof -
  obtain y ys where a: "a = y # ys" using assms(2) by (cases a) auto
  have "Min (set a) = y"
    using assms(1) a by (intro Min_eqI) auto
  then show ?thesis using a by simp
qed

lemma sorted_last_Max_set:
  assumes "sorted (a :: int list)" "a \<noteq> []"
  shows "last a = Max (set a)"
proof -
  obtain z zs where b: "a = zs @ [z]" using assms(2) by (cases a rule: rev_cases) auto
  have "Max (set a) = z"
    using assms(1) b by (intro Max_eqI) (auto simp: sorted_append)
  then show ?thesis using b by simp
qed

text \<open>On sorted lists the result of the scan depends on the set of entries only.\<close>

lemma new_offset_set_eq:
  assumes "sorted a" "sorted b" "set a = set b"
  shows "new_offset a = new_offset b"
proof (cases "a = []")
  case True
  then have "b = []" using assms(3) by simp
  then show ?thesis using True by simp
next
  case False
  then have b: "b \<noteq> []" using assms(3) by auto
  have "hd a = hd b" "last a = last b"
    using assms False b by (simp_all add: sorted_hd_Min_set sorted_last_Max_set)
  then show ?thesis using False b assms(1,2) by (simp add: new_offset_sorted)
qed

section \<open>Facts about acknowledgment\<close>

lemma sorted_on_event_ready: "sorted (on_event_ready x a)"
  by (simp add: on_event_ready_def)

lemma set_on_event_ready: "set (on_event_ready x a) = insert x (set a)"
  by (simp add: on_event_ready_def)

lemma acked_commit_tick: "acked (consumer (commit_tick b s)) = acked (consumer s)"
  by (simp add: commit_tick_def split: sum.splits)

lemma sorted_step:
  "sorted (acked (consumer s)) \<Longrightarrow> sorted (acked (consumer (step s e)))"
  by (cases e) (simp_all add: sorted_on_event_ready acked_commit_tick)

lemma sorted_foldl_step:
  "sorted (acked (consumer s)) \<Longrightarrow> sorted (acked (consumer (foldl step s evs)))"
  by (induction evs arbitrary: s) (simp_all add: sorted_step)

lemma example_init:
  "consumer_init 0 example_transport (Some example_topic) (Some (\<lambda>k v. None)) h None None =
     (1, True, Inr (example_consumer h))"
  by (simp add: consumer_init_def example_consumer_def example_topic_def
      example_transport_def or_str_def or_num_def truthy_str_def truthy_num_def)

lemma acked_step_tick: "acked (consumer (step s (Tick b))) = acked (consumer s)"
  by (simp add: acked_commit_tick)

lemma acked_step_ack:
  "acked (consumer (step s (Ack x))) = sort (acked (consumer s) @ [x])"
  by (simp add: on_event_ready_def)

text \<open>No acknowledged offset is lost or invented: as a multiset, the list is what it was
  plus the offsets released since.\<close>

lemma mset_acked_foldl:
  "mset (acked (consumer (foldl step s evs))) = mset (acked (consumer s)) + mset (acks_of evs)"
proof (induction evs arbitrary: s)
  case Nil
  show ?case by simp
next
  case (Cons ev evs)
  show ?case
  proof (cases ev)
    case (Ack x)
    have "mset (acked (consumer (step s (Ack x)))) = mset (acked (consumer s)) + {#x#}"
      unfolding acked_step_ack by simp
    then show ?thesis using Cons.IH [of "step s (Ack x)"] Ack by simp
  next
    case (Tick b)
    have "acked (consumer (step s (Tick b))) = acked (consumer s)"
      by (rule acked_step_tick)
    then show ?thesis using Cons.IH [of "step s (Tick b)"] Tick by simp
  qed
qed

text \<open>
  C10. The list of acknowledged offsets is empty in a newly constructed consumer. Every
  acknowledgment appends its offset and sorts the list: the list after the acknowledgment
  of \<open>x\<close> is the sorted list of the entries before it and \<open>x\<close>. So in every state the
  consumer reaches, whatever events are released and whenever the commit loop wakes up,
  the list is sorted in ascending order and holds exactly the offsets acknowledged so
  far, each as often as it was acknowledged; every scan of the commit loop reads this
  ascending list.
\<close>

theorem acked_always_sorted:
  assumes "consumer_init n tr tp cb on_key on_value interval = (n', reached, Inr c)"
  shows "acked c = [] \<and>
     sorted (acked (consumer (run c evs))) \<and>
     acked (consumer (run c evs)) = sort (acks_of evs) \<and>
     acked (consumer (step (run c evs) (Ack x))) = sort (acked (consumer (run c evs)) @ [x]) \<and>
     acked (consumer (step (run c evs) (Tick b))) = acked (consumer (run c evs))"
proof -
  have e: "acked c = []"
    using assms by (auto simp: consumer_init_def split: option.splits if_splits)
  then have "sorted (acked (consumer (start c)))" by (simp add: start_def)
  then have srt: "sorted (acked (consumer (run c evs)))"
    unfolding run_def by (simp add: sorted_foldl_step)
  have "mset (acked (consumer (run c evs))) = mset (acks_of evs)"
    unfolding run_def using mset_acked_foldl [where s = "start c" and evs = evs] e
    by (simp add: start_def)
  then have "sort (acks_of evs) = acked (consumer (run c evs))"
    using srt by (intro properties_for_sort) simp_all
  then have eq: "acked (consumer (run c evs)) = sort (acks_of evs)"
    by (rule sym)
  show ?thesis
    using e srt eq acked_step_ack [of "run c evs" x] acked_step_tick [of "run c evs" b]
    by blast
qed

theorem acked_always_sorted_witness:
  "consumer_init 0 example_transport (Some example_topic) (Some (\<lambda>k v. None)) None None None =
     (1, True, Inr (example_consumer None)) \<and>
   acked (example_consumer None) = [] \<and>
   sorted (acked (consumer (run (example_consumer None) [Ack 8, Ack 5, Tick None, Ack 6]))) \<and>
   acked (consumer (run (example_consumer None) [Ack 8, Ack 5, Tick None, Ack 6])) = [5, 6, 8] \<and>
   acked (consumer (step (run (example_consumer None) [Ack 8, Ack 5, Tick None, Ack 6]) (Ack 7)))
     = [5, 6, 7, 8]"
proof -
  note t = acked_always_sorted [OF example_init [of None],
      where evs = "[Ack 8, Ack 5, Tick None, Ack 6]" and x = 7 and b = None]
  have a: "acked (consumer (run (example_consumer None) [Ack 8, Ack 5, Tick None, Ack 6])) =
      sort (acks_of [Ack 8, Ack 5, Tick None, Ack 6])"
    using t by blast
  have b: "acked (consumer (step (run (example_consumer None)
        [Ack 8, Ack 5, Tick None, Ack 6]) (Ack 7))) =
      sort (acked (consumer (run (example_consumer None) [Ack 8, Ack 5, Tick None, Ack 6]))
        @ [7])"
    using t by blast
  have a': "acked (consumer (run (example_consumer None) [Ack 8, Ack 5, Tick None, Ack 6])) =
      [5, 6, 8]"
    unfolding a by simp
  have b': "acked (consumer (step (run (example_consumer None)
        [Ack 8, Ack 5, Tick None, Ack 6]) (Ack 7))) = [5, 6, 7, 8]"
    unfolding b a' by simp
  have "acked (example_consumer None) = []"
    and "sorted (acked (consumer (run (example_consumer None)
        [Ack 8, Ack 5, Tick None, Ack 6])))"
    using t by blast+
  then show ?thesis using a' b' example_init [of None] by blast
qed

text \<open>
  C3. Acknowledging the same offset a second time does not change the result of the scan
  (an offset or \<open>IndexError\<close>); and acknowledging an offset that is already in a sorted
  list of acknowledged offsets leaves the result as it was.
\<close>

theorem duplicate_ack_idempotent:
  "new_offset (acked (consumer (step (step s (Ack x)) (Ack x)))) =
     new_offset (acked (consumer (step s (Ack x)))) \<and>
   (sorted (acked (consumer s)) \<and> x \<in> set (acked (consumer s)) \<longrightarrow>
      new_offset (acked (consumer (step s (Ack x)))) = new_offset (acked (consumer s)))"
proof -
  have "new_offset (on_event_ready x (on_event_ready x a)) = new_offset (on_event_ready x a)"
    for a
    by (rule new_offset_set_eq) (simp_all add: sorted_on_event_ready set_on_event_ready)
  moreover have "new_offset (on_event_ready x a) = new_offset a"
    if "sorted a" "x \<in> set a" for a
    using that by (intro new_offset_set_eq) (auto simp: sorted_on_event_ready set_on_event_ready)
  ultimately show ?thesis by simp
qed

theorem duplicate_ack_idempotent_witness:
  "sorted (acked (consumer (run (example_consumer None) [Ack 5]))) \<and>
   5 \<in> set (acked (consumer (run (example_consumer None) [Ack 5]))) \<and>
   new_offset (acked (consumer (step (run (example_consumer None) [Ack 5]) (Ack 5)))) =
     new_offset (acked (consumer (run (example_consumer None) [Ack 5])))"
  using duplicate_ack_idempotent [of "run (example_consumer None) [Ack 5]" 5]
  by (simp add: run_def start_def example_consumer_def on_event_ready_def)

text \<open>
  C1. The scan at the acknowledged offsets 5, 6, 8 returns 5, and at 0, 1, 2 it returns 0:
  the first comparison is against the last entry of the list, so the loop stops at the
  first entry whenever the list holds two different offsets. The claim asks for 6 and 2.
\<close>

theorem gap_scan_returns_first_entry:
  "new_offset (acked (consumer (run (example_consumer None) [Ack 5, Ack 6, Ack 8]))) = Inr 5 \<and>
   new_offset (acked (consumer (run (example_consumer None) [Ack 0, Ack 1, Ack 2]))) = Inr 0"
  by (simp add: run_def start_def example_consumer_def on_event_ready_def
      new_offset_def py_getitem_def enumerate_eq_zip)

text \<open>
  C2. With the single acknowledged offset 5 the scan raises \<open>IndexError\<close>, as it does on
  the empty list, and the commit loop skips the tick without calling the backend. The
  claim asks for an offset whenever an offset was acknowledged.
\<close>

theorem single_ack_raises_index_error:
  "new_offset (acked (consumer (run (example_consumer None) [Ack 5]))) = Inl IndexError \<and>
   new_offset [] = Inl IndexError \<and>
   commits (run (example_consumer None) [Ack 5, Tick None]) = []"
  by (simp add: run_def start_def example_consumer_def on_event_ready_def
      new_offset_def py_getitem_def enumerate_eq_zip commit_tick_def)

section \<open>Facts about the commit loop\<close>

lemma strict_sorted_le_last:
  "sorted_wrt (<) (cs :: int list) \<Longrightarrow> p \<in> set cs \<Longrightarrow> p \<le> last cs"
  by (induction cs) (auto simp: less_imp_le)

text \<open>What one wake-up of the loop does to the running consumer.\<close>

lemma commit_tick_cases:
  "commit_tick b s = s \<or>
   (\<exists>e. commit_tick b s = s\<lparr>handler_exc := Some e\<rparr>) \<or>
   (\<exists>offset. new_offset (acked (consumer s)) = Inr offset \<and>
      should_commit (current_offset (consumer s)) offset \<and>
      commit_tick b s =
        s\<lparr>consumer := (consumer s)\<lparr>current_offset := Some offset\<rparr>,
          commits := commits s @ [offset], handler_exc := b\<rparr>)"
  by (cases "new_offset (acked (consumer s))") (auto simp: commit_tick_def)

lemma commit_inv_tick:
  assumes "commit_inv s"
  shows "commit_inv (commit_tick b s)"
proof -
  consider (same) "commit_tick b s = s"
    | (exc) e where "commit_tick b s = s\<lparr>handler_exc := Some e\<rparr>"
    | (call) offset where "should_commit (current_offset (consumer s)) offset"
        "commit_tick b s =
           s\<lparr>consumer := (consumer s)\<lparr>current_offset := Some offset\<rparr>,
             commits := commits s @ [offset], handler_exc := b\<rparr>"
    using commit_tick_cases [of b s] by blast
  then show ?thesis
  proof cases
    case same
    then show ?thesis using assms by simp
  next
    case exc
    then show ?thesis using assms by (simp add: commit_inv_def split: option.splits)
  next
    case call
    show ?thesis
    proof (cases "current_offset (consumer s)")
      case None
      then show ?thesis using assms call by (simp add: commit_inv_def)
    next
      case (Some prev)
      have lt: "prev < offset" using call(1) Some by (simp add: should_commit_def)
      have "\<forall>p\<in>set (commits s). p < offset"
        using assms Some lt strict_sorted_le_last [of "commits s"]
        by (fastforce simp: commit_inv_def)
      then show ?thesis using assms call(2) Some
        by (simp add: commit_inv_def sorted_wrt_append)
    qed
  qed
qed

lemma commit_inv_step: "commit_inv s \<Longrightarrow> commit_inv (step s e)"
  by (cases e) (simp_all add: commit_inv_tick, simp add: commit_inv_def split: option.splits)

lemma commit_inv_foldl: "commit_inv s \<Longrightarrow> commit_inv (foldl step s evs)"
  by (induction evs arbitrary: s) (simp_all add: commit_inv_step)

lemma commit_inv_run: "current_offset c = None \<Longrightarrow> commit_inv (run c evs)"
  unfolding run_def by (rule commit_inv_foldl) (simp add: commit_inv_def start_def)

text \<open>Once the loop was ended by an exception, nothing changes the commit state.\<close>

lemma stopped_step: "handler_exc s = Some e \<Longrightarrow>
   handler_exc (step s ev) = Some e \<and> commits (step s ev) = commits s \<and>
   current_offset (consumer (step s ev)) = current_offset (consumer s)"
  by (cases ev) simp_all

lemma stopped_foldl: "handler_exc s = Some e \<Longrightarrow>
   handler_exc (foldl step s evs) = Some e \<and> commits (foldl step s evs) = commits s \<and>
   current_offset (consumer (foldl step s evs)) = current_offset (consumer s)"
proof (induction evs arbitrary: s)
  case Nil
  then show ?case by simp
next
  case (Cons ev evs)
  have "handler_exc (step s ev) = Some e" using Cons.prems stopped_step by blast
  then show ?case using Cons.IH [of "step s ev"] stopped_step [OF Cons.prems, of ev] by simp
qed

text \<open>
  C4. In every run of a consumer that starts without a committed offset, the offsets
  passed to the backend commit are strictly increasing; and a wake-up of the loop either
  makes no call, or makes one call whose offset is the first ever (no prior commit), or is
  not 0 and greater than \<open>_current_offset\<close>, which bounds every offset committed before.
\<close>

theorem commit_offsets_strictly_increase:
  assumes "current_offset c = None"
  shows "sorted_wrt (<) (commits (run c evs)) \<and>
     (commits (step (run c evs) (Tick b)) = commits (run c evs) \<or>
      (\<exists>offset. commits (step (run c evs) (Tick b)) = commits (run c evs) @ [offset] \<and>
         (case current_offset (consumer (run c evs)) of
            None \<Rightarrow> commits (run c evs) = []
          | Some prev \<Rightarrow>
              offset \<noteq> 0 \<and> prev < offset \<and> (\<forall>p\<in>set (commits (run c evs)). p \<le> prev))))"
proof -
  let ?s = "run c evs"
  have inv: "commit_inv ?s" using assms by (rule commit_inv_run)
  have 1: "sorted_wrt (<) (commits ?s)" using inv by (simp add: commit_inv_def)
  have 2: "commits (step ?s (Tick b)) = commits ?s \<or>
      (\<exists>offset. commits (step ?s (Tick b)) = commits ?s @ [offset] \<and>
         (case current_offset (consumer ?s) of
            None \<Rightarrow> commits ?s = []
          | Some prev \<Rightarrow> offset \<noteq> 0 \<and> prev < offset \<and> (\<forall>p\<in>set (commits ?s). p \<le> prev)))"
  proof (cases "commits (step ?s (Tick b)) = commits ?s")
    case True
    then show ?thesis by simp
  next
    case False
    then have run: "handler_exc ?s = None" and ne: "commits (commit_tick b ?s) \<noteq> commits ?s"
      by (auto split: if_splits)
    obtain offset where sc: "should_commit (current_offset (consumer ?s)) offset"
      and ct: "commits (commit_tick b ?s) = commits ?s @ [offset]"
      using commit_tick_cases [of b ?s] ne by auto
    have "case current_offset (consumer ?s) of
            None \<Rightarrow> commits ?s = []
          | Some prev \<Rightarrow> offset \<noteq> 0 \<and> prev < offset \<and> (\<forall>p\<in>set (commits ?s). p \<le> prev)"
    proof (cases "current_offset (consumer ?s)")
      case None
      then show ?thesis using inv by (simp add: commit_inv_def)
    next
      case (Some prev)
      have "\<forall>p\<in>set (commits ?s). p \<le> prev"
        using inv Some strict_sorted_le_last [of "commits ?s"] by (auto simp: commit_inv_def)
      then show ?thesis using sc Some by (simp add: should_commit_def)
    qed
    then show ?thesis using ct run by auto
  qed
  show ?thesis using 1 2 by blast
qed

theorem commit_offsets_strictly_increase_witness:
  "current_offset (example_consumer None) = None \<and>
   sorted_wrt (<) (commits (run (example_consumer None) [Ack 1, Ack 2, Tick None, Ack 3])) \<and>
   commits (run (example_consumer None) [Ack 1, Ack 2, Tick None, Ack 3]) = [1] \<and>
   commits (step (run (example_consumer None) [Ack 1, Ack 2, Tick None, Ack 3]) (Tick None)) = [1]"
proof -
  have h: "current_offset (example_consumer None) = None" by (simp add: example_consumer_def)
  have "commits (run (example_consumer None) [Ack 1, Ack 2, Tick None, Ack 3]) = [1]"
    by (simp add: run_def start_def example_consumer_def on_event_ready_def
      new_offset_def py_getitem_def enumerate_eq_zip commit_tick_def should_commit_def)
  moreover have
    "commits (step (run (example_consumer None) [Ack 1, Ack 2, Tick None, Ack 3]) (Tick None)) = [1]"
    by (simp add: run_def start_def example_consumer_def on_event_ready_def
      new_offset_def py_getitem_def enumerate_eq_zip commit_tick_def should_commit_def)
  ultimately show ?thesis
    using commit_offsets_strictly_increase [OF h, of "[Ack 1, Ack 2, Tick None, Ack 3]" None] h
    by simp
qed

text \<open>
  C5, as the claim states it, fails: after the offsets 1 and 2 were acknowledged, a wake-up
  on which the backend commit raises ends the loop with that exception, after one call
  with the offset 1; the wake-ups that follow make no further call, so nothing is retried.
\<close>

theorem commit_failure_not_retried:
  "handler_exc (run (example_consumer None)
      [Ack 1, Ack 2, Tick (Some (Other ''backend down''))]) = Some (Other ''backend down'') \<and>
   commits (run (example_consumer None)
      [Ack 1, Ack 2, Tick (Some (Other ''backend down''))]) = [1] \<and>
   commits (run (example_consumer None)
      [Ack 1, Ack 2, Tick (Some (Other ''backend down'')), Tick None, Ack 3, Tick None]) = [1]"
  by (simp add: run_def start_def example_consumer_def on_event_ready_def
      new_offset_def py_getitem_def enumerate_eq_zip commit_tick_def should_commit_def)

text \<open>
  C5, amended. If the backend commit raises on a wake-up of a running loop, the exception
  ends the loop: whatever happens afterwards, the exception stays recorded, the backend
  commit is not called again, and \<open>_current_offset\<close> stays at the offset of the failed call.
\<close>

theorem commit_failure_ends_loop:
  assumes "handler_exc s = None"
    and "commits (step s (Tick (Some e))) \<noteq> commits s"
  shows "\<exists>offset. commits (step s (Tick (Some e))) = commits s @ [offset] \<and>
      handler_exc (foldl step (step s (Tick (Some e))) evs) = Some e \<and>
      commits (foldl step (step s (Tick (Some e))) evs) = commits s @ [offset] \<and>
      current_offset (consumer (foldl step (step s (Tick (Some e))) evs)) = Some offset"
proof -
  let ?s' = "step s (Tick (Some e))"
  have ne: "commits (commit_tick (Some e) s) \<noteq> commits s" using assms by simp
  obtain offset where ct: "commit_tick (Some e) s =
        s\<lparr>consumer := (consumer s)\<lparr>current_offset := Some offset\<rparr>,
          commits := commits s @ [offset], handler_exc := Some e\<rparr>"
    using commit_tick_cases [of "Some e" s] ne by auto
  have s': "?s' = s\<lparr>consumer := (consumer s)\<lparr>current_offset := Some offset\<rparr>,
          commits := commits s @ [offset], handler_exc := Some e\<rparr>"
    using assms(1) ct by simp
  have "handler_exc ?s' = Some e" using s' by simp
  from stopped_foldl [OF this, of evs] show ?thesis using s' by simp
qed

theorem commit_failure_ends_loop_witness:
  "handler_exc (run (example_consumer None) [Ack 1, Ack 2]) = None \<and>
   commits (step (run (example_consumer None) [Ack 1, Ack 2])
      (Tick (Some (Other ''backend down''))))
     \<noteq> commits (run (example_consumer None) [Ack 1, Ack 2]) \<and>
   commits (foldl step (step (run (example_consumer None) [Ack 1, Ack 2])
      (Tick (Some (Other ''backend down'')))) [Ack 3, Tick None]) = [1]"
proof -
  have a: "handler_exc (run (example_consumer None) [Ack 1, Ack 2]) = None"
    by (simp add: run_def start_def)
  have c: "commits (run (example_consumer None) [Ack 1, Ack 2]) = []"
    by (simp add: run_def start_def)
  have b: "commits (step (run (example_consumer None) [Ack 1, Ack 2])
      (Tick (Some (Other ''backend down'')))) = [1]"
    by (simp add: run_def start_def example_consumer_def on_event_ready_def
      new_offset_def py_getitem_def enumerate_eq_zip commit_tick_def should_commit_def)
  have b': "commits (step (run (example_consumer None) [Ack 1, Ack 2])
      (Tick (Some (Other ''backend down''))))
     \<noteq> commits (run (example_consumer None) [Ack 1, Ack 2])"
    using b c by simp
  show ?thesis
    using commit_failure_ends_loop [OF a b', of "[Ack 3, Tick None]"] a b b' c by auto
qed

section \<open>Facts about the receive path\<close>

lemma to_KV_bad_key:
  "to_KV example_loads (example_consumer h) bad_key_message =
     Inl (KeyDecodeError ''cannot decode'')"
  by (simp add: to_KV_def example_loads_def example_consumer_def bad_key_message_def
      truthy_str_def)

text \<open>Without a handler the decode error leaves \<open>on_message\<close>; nothing is tracked or called.\<close>

lemma on_message_key_error_no_handler:
  "to_KV loads c m = Inl (KeyDecodeError exc) \<Longrightarrow> on_key_decode_error c = None \<Longrightarrow>
   on_message loads weakrefable c m = (c, [], Inl (KeyDecodeError exc))"
  by (simp add: on_message_def)

lemma on_message_value_error_no_handler:
  "to_KV loads c m = Inl (ValueDecodeError exc) \<Longrightarrow> on_value_decode_error c = None \<Longrightarrow>
   on_message loads weakrefable c m = (c, [], Inl (ValueDecodeError exc))"
  by (simp add: on_message_def)

text \<open>
  A decoded message is tracked and passed to the callback when a weak reference to the
  event can be made; otherwise \<open>track_event\<close> raises and the callback is not called.
\<close>

lemma on_message_decoded:
  "to_KV loads c m = Inr (k, v) \<Longrightarrow> weakrefable v \<Longrightarrow>
   on_message loads weakrefable c m =
     (c\<lparr>dirty_events := dirty_events c @ [(v, msg_offset m)]\<rparr>, [CallbackCall k v],
      case callback c k v of None \<Rightarrow> Inr () | Some e \<Rightarrow> Inl e)"
  by (simp add: on_message_def after_try_def track_event_def)

lemma on_message_not_weakrefable:
  "to_KV loads c m = Inr (k, v) \<Longrightarrow> \<not> weakrefable v \<Longrightarrow>
   on_message loads weakrefable c m = (c, [], Inl TypeError)"
  by (simp add: on_message_def after_try_def track_event_def)

text \<open>
  With a handler that returns, control reaches \<open>self.track_event(v, \<dots>)\<close> with \<open>v\<close>
  unassigned.
\<close>

lemma on_message_key_error_handler:
  "to_KV loads c m = Inl (KeyDecodeError exc) \<Longrightarrow> on_key_decode_error c = Some h \<Longrightarrow>
   h exc m = None \<Longrightarrow>
   on_message loads weakrefable c m = (c, [KeyHandlerCall exc m], Inl UnboundLocalError)"
  by (simp add: on_message_def after_try_def)

lemma on_message_value_error_handler:
  "to_KV loads c m = Inl (ValueDecodeError exc) \<Longrightarrow> on_value_decode_error c = Some h \<Longrightarrow>
   h exc m = None \<Longrightarrow>
   on_message loads weakrefable c m = (c, [ValueHandlerCall exc m], Inl UnboundLocalError)"
  by (simp add: on_message_def after_try_def)

text \<open>
  C6. A message whose key cannot be decoded, received by a consumer with an
  \<open>on_key_decode_error\<close> handler that returns normally: the handler is called with the
  error and the message, the event is not tracked and the callback is not called, but
  \<open>on_message\<close> then raises \<open>UnboundLocalError\<close>. The claim asks that processing continues
  without raising.
\<close>

theorem handled_key_error_raises_unbound_local:
  "snd (snd (on_message example_loads weakrefable
      (example_consumer (Some (\<lambda>exc m. None))) bad_key_message))
     = Inl UnboundLocalError \<and>
   fst (snd (on_message example_loads weakrefable
      (example_consumer (Some (\<lambda>exc m. None))) bad_key_message))
     = [KeyHandlerCall ''cannot decode'' bad_key_message] \<and>
   dirty_events (fst (on_message example_loads weakrefable
      (example_consumer (Some (\<lambda>exc m. None))) bad_key_message)) = []"
  unfolding on_message_def to_KV_bad_key
  by (simp add: after_try_def example_consumer_def)

section \<open>Facts about construction\<close>

text \<open>
  C7. Construction without a callback fails on the assertion, before anything else
  happens; construction with a callback and a topic that has both topic names and a
  pattern raises \<open>TypeError\<close> before \<open>super().__init__\<close> is reached, the consumer counter
  being the only thing that changed. These two exceptions are what the specification
  calls \<open>ConfigurationError\<close>.
\<close>

theorem consumer_init_rejects:
  "consumer_init n tr (tp :: ('k, 'v) topic option) None on_key on_value interval =
     (n, False, Inl AssertionError) \<and>
   (topics t \<noteq> [] \<and> pattern t \<noteq> None \<longrightarrow>
      consumer_init n tr (Some (t :: ('k, 'v) topic)) (Some cb) on_key on_value interval =
        (Suc n, False, Inl TypeError))"
  by (simp add: consumer_init_def)

theorem consumer_init_rejects_witness:
  "topics (example_topic\<lparr>pattern := Some ''ord.*''\<rparr>) \<noteq> [] \<and>
   pattern (example_topic\<lparr>pattern := Some ''ord.*''\<rparr>) \<noteq> None \<and>
   consumer_init 0 example_transport (Some (example_topic\<lparr>pattern := Some ''ord.*''\<rparr>))
     (Some (\<lambda>k v. None)) None None None = (1, False, Inl TypeError)"
  using consumer_init_rejects [where n = 0 and tp = None and tr = example_transport
      and t = "example_topic\<lparr>pattern := Some ''ord.*''\<rparr>" and cb = "\<lambda>k v. None"
      and on_key = None and on_value = None and interval = None]
  by (simp add: example_topic_def)

section \<open>Facts about Table\<close>

text \<open>
  C8. A received message whose processing returns \<open>processed\<close> stores it under the key
  of the message and changes no other key; \<open>get\<close> and \<open>delete\<close> of a missing key raise
  \<open>KeyError\<close> (the specification's \<open>KeyNotFound\<close>), and after \<open>delete\<close> of a present key
  \<open>get\<close> raises it. With the identity as processing: after \<open>set("a", 1)\<close> and the message
  \<open>("a", 2)\<close>, \<open>get("a")\<close> is 2, and after \<open>delete("a")\<close> it raises \<open>KeyError\<close>.
\<close>

theorem table_accessors:
  "(process key val = Inr processed \<longrightarrow>
      table_on_message process state key val = Inr (state(key \<mapsto> processed)) \<and>
      (\<forall>state'. table_on_message process state key val = Inr state' \<longrightarrow>
         table_getitem state' key = Inr processed \<and>
         (\<forall>other. other \<noteq> key \<longrightarrow> state' other = state other))) \<and>
   (state key = None \<longrightarrow>
      table_getitem state key = Inl KeyError \<and> table_delitem state key = Inl KeyError) \<and>
   (state key = Some v \<longrightarrow>
      (\<exists>state'. table_delitem state key = Inr state' \<and> table_getitem state' key = Inl KeyError)) \<and>
   table_on_message (\<lambda>k v. Inr v) (table_setitem Map.empty ''a'' (1::int)) ''a'' 2 =
     Inr [''a'' \<mapsto> 2] \<and>
   table_getitem [''a'' \<mapsto> 2::int] ''a'' = Inr 2 \<and>
   table_delitem [''a'' \<mapsto> 2::int] ''a'' = Inr Map.empty \<and>
   table_getitem (Map.empty :: string \<rightharpoonup> int) ''a'' = Inl KeyError"
  by (simp add: table_on_message_def table_getitem_def table_delitem_def table_setitem_def)

theorem table_accessors_witness:
  "table_on_message (\<lambda>k v. Inr v) [''a'' \<mapsto> 1::int] ''a'' 2 = Inr [''a'' \<mapsto> 2] \<and>
   table_getitem [''a'' \<mapsto> 1::int] ''b'' = Inl KeyError \<and>
   table_delitem [''a'' \<mapsto> 1::int] ''b'' = Inl KeyError \<and>
   (\<exists>state'. table_delitem [''a'' \<mapsto> 2::int] ''a'' = Inr state' \<and>
      table_getitem state' ''a'' = Inl KeyError)"
  using table_accessors [where process = "\<lambda>k v. Inr v" and key = "''a''" and val = "2::int"
      and processed = 2 and state = "[''a'' \<mapsto> 1]" and v = 1]
    table_accessors [where process = "\<lambda>k v. Inr v" and key = "''b''" and val = "2::int"
      and processed = 2 and state = "[''a'' \<mapsto> 1]" and v = 1]
    table_accessors [where process = "\<lambda>k v. Inr v" and key = "''a''" and val = "2::int"
      and processed = 2 and state = "[''a'' \<mapsto> 2]" and v = 2]
  by simp

text \<open>
  C9. Initialization of a table fails on the assertion when the stream has a generator
  callback registered, and with none it succeeds with an empty state, in which every key
  is missing. The failed assertion is what the specification calls \<open>ConfigurationError\<close>.
\<close>

theorem table_on_init_rejects_generators:
  "((coroutines :: 'c list) \<noteq> [] \<longrightarrow>
      (table_on_init coroutines :: error + ('k \<rightharpoonup> 'v)) = Inl AssertionError) \<and>
   (\<exists>state. (table_on_init ([] :: 'c list) :: error + ('k \<rightharpoonup> 'v)) = Inr state \<and>
      (\<forall>key. table_getitem state key = Inl KeyError))"
  by (simp add: table_on_init_def table_getitem_def)

theorem table_on_init_rejects_generators_witness:
  "[''agent''] \<noteq> [] \<and>
   (table_on_init [''agent''] :: error + (string \<rightharpoonup> int)) = Inl AssertionError"
  using table_on_init_rejects_generators
      [where ?'k = string and ?'v = int and coroutines = "[''agent'']"]
  by simp

end
